theory Spec2Isabelle
  imports Main "HOL-Library.Char_ord" "HOL-Library.List_Lexorder"
begin

section \<open>UserGen.py: username permutations from personal names\<close>

text \<open>
  Python strings are modelled as \<^typ>\<open>string\<close>, one \<^typ>\<open>char\<close> per character,
  read by its code (\<open>of_char\<close>). Python sets of strings are \<^typ>\<open>string set\<close>;
  \<open>variants.add(x)\<close> is \<open>insert x\<close>, \<open>s.update(t)\<close> is union.
\<close>

subsection \<open>Character classes\<close>

definition is_lower :: "char \<Rightarrow> bool" where
  \<comment> \<open>the regex range \<open>a-z\<close>\<close>
  "is_lower c = (97 \<le> (of_char c :: nat) \<and> (of_char c :: nat) \<le> 122)"

definition is_upper :: "char \<Rightarrow> bool" where
  \<comment> \<open>\<open>A-Z\<close>\<close>
  "is_upper c = (65 \<le> (of_char c :: nat) \<and> (of_char c :: nat) \<le> 90)"

definition is_digit :: "char \<Rightarrow> bool" where
  \<comment> \<open>the regex range \<open>0-9\<close>\<close>
  "is_digit c = (48 \<le> (of_char c :: nat) \<and> (of_char c :: nat) \<le> 57)"

definition is_alnum :: "char \<Rightarrow> bool" where
  \<comment> \<open>the regex class \<open>[a-z0-9]\<close>\<close>
  "is_alnum c = (is_lower c \<or> is_digit c)"

definition strip_non_alnum :: "string \<Rightarrow> string" where
  \<comment> \<open>\<open>re.sub(r"[^a-z0-9]", '', s)\<close>\<close>
  "strip_non_alnum s = filter is_alnum s"

subsection \<open>generate\_variants\<close>

datatype fmt = All | Standard | Dotted | Underscored | Dashed | Initial | Reversed

definition resolve_formats :: "fmt list option \<Rightarrow> fmt list" where
  \<comment> \<open>\<open>if formats is None or 'all' in formats: formats = [the six categories]\<close>\<close>
  "resolve_formats formats =
     (case formats of
        None \<Rightarrow> [Standard, Dotted, Underscored, Dashed, Initial, Reversed]
      | Some fs \<Rightarrow> if All \<in> set fs
                  then [Standard, Dotted, Underscored, Dashed, Initial, Reversed]
                  else fs)"

definition standard_variants :: "string \<Rightarrow> string \<Rightarrow> string \<Rightarrow> string set" where
  "standard_variants f l m =
     {f} \<union> (if l \<noteq> [] then {f @ l, l @ f} else {})
         \<union> (if m \<noteq> [] then {f @ m, f @ m @ l} else {})"

definition dotted_variants :: "string \<Rightarrow> string \<Rightarrow> string \<Rightarrow> string set" where
  \<comment> \<open>\<open>f[0]\<close>, \<open>l[0]\<close>, \<open>m[0]\<close> are read only where the string is known non-empty\<close>
  "dotted_variants f l m =
     {f @ ''.'' @ l, l @ ''.'' @ f, [hd f] @ ''.'' @ l, f @ ''.'' @ [hd l]}
       \<union> (if m \<noteq> [] then {f @ ''.'' @ m @ ''.'' @ l, [hd f] @ ''.'' @ [hd m] @ ''.'' @ l}
          else {})"

definition underscored_variants :: "string \<Rightarrow> string \<Rightarrow> string \<Rightarrow> string set" where
  "underscored_variants f l m =
     {f @ ''_'' @ l, l @ ''_'' @ f, [hd f] @ ''_'' @ l, f @ ''_'' @ [hd l]}
       \<union> (if m \<noteq> [] then {f @ ''_'' @ m @ ''_'' @ l} else {})"

definition dashed_variants :: "string \<Rightarrow> string \<Rightarrow> string set" where
  "dashed_variants f l =
     {f @ ''-'' @ l, l @ ''-'' @ f, [hd f] @ ''-'' @ l, f @ ''-'' @ [hd l]}"

definition initial_variants :: "string \<Rightarrow> string \<Rightarrow> string \<Rightarrow> string set" where
  "initial_variants f l m =
     {[hd f] @ l, l @ [hd f], f @ [hd l], [hd l] @ f}
       \<union> (if m \<noteq> [] then {[hd f] @ [hd m] @ l, f @ [hd m] @ [hd l]} else {})"

definition reversed_variants :: "string \<Rightarrow> string \<Rightarrow> string set" where
  "reversed_variants f l =
     {l, l @ f, l @ ''.'' @ f, l @ ''_'' @ f, l @ ''-'' @ f}"

definition generate_variants ::
  "string \<Rightarrow> string \<Rightarrow> string \<Rightarrow> fmt list option \<Rightarrow> string set" where
  "generate_variants first last_name middle formats =
     (let f = strip_non_alnum first;
          l = strip_non_alnum last_name;
          m = (if middle \<noteq> [] then strip_non_alnum middle else []) in
      if f = [] then {}
      else
        let fs = resolve_formats formats in
          (if Standard \<in> set fs then standard_variants f l m else {})
        \<union> (if Dotted \<in> set fs \<and> l \<noteq> [] then dotted_variants f l m else {})
        \<union> (if Underscored \<in> set fs \<and> l \<noteq> [] then underscored_variants f l m else {})
        \<union> (if Dashed \<in> set fs \<and> l \<noteq> [] then dashed_variants f l else {})
        \<union> (if Initial \<in> set fs \<and> l \<noteq> [] then initial_variants f l m else {})
        \<union> (if Reversed \<in> set fs \<and> l \<noteq> [] then reversed_variants f l else {}))"

subsection \<open>Decimal representation of integers: \<open>str(n)\<close>\<close>

definition digit_char :: "nat \<Rightarrow> char" where
  "digit_char d = char_of (48 + d)"

function str_nat :: "nat \<Rightarrow> string" where
  "str_nat n = (if n < 10 then [digit_char n] else str_nat (n div 10) @ [digit_char (n mod 10)])"
  by pat_completeness auto
termination
  by (relation "measure (\<lambda>n. n)") auto

declare str_nat.simps [simp del]

definition str_int :: "int \<Rightarrow> string" where
  "str_int i = (if i < 0 then CHR ''-'' # str_nat (nat (- i)) else str_nat (nat i))"

subsection \<open>add\_suffixes\<close>

definition truthy_list :: "'a list option \<Rightarrow> 'a list" where
  \<comment> \<open>\<open>if xs:\<close> on an optional list: \<open>None\<close> and \<open>[]\<close> both skip the loop\<close>
  "truthy_list xs = (case xs of None \<Rightarrow> [] | Some ys \<Rightarrow> ys)"

definition number_suffixes :: "string set \<Rightarrow> int list \<Rightarrow> string set" where
  "number_suffixes usernames numbers =
     (\<Union>username \<in> usernames. \<Union>num \<in> set numbers.
        {username @ str_int num, username @ ''.'' @ str_int num,
         username @ ''_'' @ str_int num, username @ ''-'' @ str_int num})"

definition year_suffixes :: "string set \<Rightarrow> int list \<Rightarrow> string set" where
  \<comment> \<open>\<open>str(year)[2:]\<close> is the slice from index 2 to the end\<close>
  "year_suffixes usernames years =
     (\<Union>username \<in> usernames. \<Union>year \<in> set years.
        {username @ str_int year, username @ drop 2 (str_int year)})"

definition word_suffixes :: "string set \<Rightarrow> string list \<Rightarrow> string set" where
  "word_suffixes usernames common_words =
     (\<Union>username \<in> usernames. \<Union>word \<in> set common_words.
        {username @ word, username @ ''.'' @ word,
         username @ ''_'' @ word, username @ ''-'' @ word})"

definition add_suffixes ::
  "string set \<Rightarrow> int list option \<Rightarrow> int list option \<Rightarrow> string list option \<Rightarrow> string set" where
  "add_suffixes usernames numbers years common_words =
     usernames
       \<union> number_suffixes usernames (truthy_list numbers)
       \<union> year_suffixes usernames (truthy_list years)
       \<union> word_suffixes usernames (truthy_list common_words)"

subsection \<open>add\_l33t\_speak\<close>

definition l33t_map :: "(char \<times> char list) list" where
  "l33t_map =
     [(CHR ''a'', [CHR ''4'', CHR ''@'']),
      (CHR ''e'', [CHR ''3'']),
      (CHR ''i'', [CHR ''1'', CHR ''!'']),
      (CHR ''o'', [CHR ''0'']),
      (CHR ''s'', [CHR ''5'', CHR ''$'']),
      (CHR ''t'', [CHR ''7'']),
      (CHR ''l'', [CHR ''1'']),
      (CHR ''g'', [CHR ''9''])]"

fun replace_first :: "char \<Rightarrow> char \<Rightarrow> string \<Rightarrow> string" where
  \<comment> \<open>\<open>s.replace(old, new, 1)\<close> for one-character \<open>old\<close> and \<open>new\<close>\<close>
  "replace_first c r [] = []"
| "replace_first c r (x # xs) = (if x = c then r # xs else x # replace_first c r xs)"

definition add_l33t_speak :: "string set \<Rightarrow> string set" where
  "add_l33t_speak usernames =
     (\<Union>username \<in> usernames. \<Union>(c, replacements) \<in> set l33t_map.
        if c \<in> set username
        then (\<lambda>replacement. replace_first c replacement username) ` set replacements
        else {})"

subsection \<open>add\_caps\_variations\<close>

text \<open>
  \<open>str.upper\<close>, \<open>str.capitalize\<close> and \<open>str.title\<close> are modelled on ASCII letters;
  every other character is uncased and left as it is.
\<close>

definition upper_char :: "char \<Rightarrow> char" where
  "upper_char c = (if is_lower c then char_of ((of_char c :: nat) - 32) else c)"

definition lower_char :: "char \<Rightarrow> char" where
  "lower_char c = (if is_upper c then char_of ((of_char c :: nat) + 32) else c)"

definition is_cased :: "char \<Rightarrow> bool" where
  "is_cased c = (is_lower c \<or> is_upper c)"

definition upper :: "string \<Rightarrow> string" where
  "upper s = map upper_char s"

definition lower :: "string \<Rightarrow> string" where
  "lower s = map lower_char s"

definition capitalize :: "string \<Rightarrow> string" where
  "capitalize s = (case s of [] \<Rightarrow> [] | c # cs \<Rightarrow> upper_char c # lower cs)"

fun title_from :: "bool \<Rightarrow> string \<Rightarrow> string" where
  \<comment> \<open>the flag says whether the previous character was cased\<close>
  "title_from prev [] = []"
| "title_from prev (c # cs) =
     (if is_cased c
      then (if prev then lower_char c else upper_char c) # title_from True cs
      else c # title_from False cs)"

definition title :: "string \<Rightarrow> string" where
  "title s = title_from False s"

datatype caps_type = CapsNone | CapsFirst | CapsUpper | CapsAll

definition add_caps_variations :: "string set \<Rightarrow> caps_type \<Rightarrow> string set" where
  "add_caps_variations usernames ct =
     (\<Union>username \<in> usernames.
        case ct of
          CapsAll \<Rightarrow> {upper username, capitalize username, title username}
        | CapsFirst \<Rightarrow> {capitalize username}
        | CapsUpper \<Rightarrow> {upper username}
        | CapsNone \<Rightarrow> {})"

subsection \<open>Whitespace, \<open>str.strip\<close>, \<open>str.split\<close>, \<open>int\<close>\<close>

definition is_space :: "char \<Rightarrow> bool" where
  \<comment> \<open>the ASCII characters Python counts as whitespace: 9-13, 28-31 and the blank\<close>
  "is_space c =
     ((9 \<le> (of_char c :: nat) \<and> (of_char c :: nat) \<le> 13)
      \<or> (28 \<le> (of_char c :: nat) \<and> (of_char c :: nat) \<le> 32))"

definition py_strip :: "string \<Rightarrow> string" where
  "py_strip s = rev (dropWhile is_space (rev (dropWhile is_space s)))"

fun split_on :: "char \<Rightarrow> string \<Rightarrow> string list" where
  \<comment> \<open>\<open>s.split(sep)\<close> for a one-character separator\<close>
  "split_on sep [] = [] # []"
| "split_on sep (c # cs) =
     (if c = sep then [] # split_on sep cs
      else (case split_on sep cs of
              [] \<Rightarrow> [c] # []
            | p # ps \<Rightarrow> (c # p) # ps))"

function split_ws :: "string \<Rightarrow> string list" where
  \<comment> \<open>\<open>s.split()\<close>: the maximal runs of non-whitespace characters\<close>
  "split_ws s =
     (case dropWhile is_space s of
        [] \<Rightarrow> []
      | c # cs \<Rightarrow> (c # takeWhile (\<lambda>x. \<not> is_space x) cs)
                  # split_ws (dropWhile (\<lambda>x. \<not> is_space x) cs))"
  by pat_completeness auto
termination
proof (relation "measure length")
  show "wf (measure length)" by simp
next
  fix s :: string and c cs
  assume a: "dropWhile is_space s = c # cs"
  have "length (dropWhile (\<lambda>x. \<not> is_space x) cs) \<le> length cs"
    by (rule length_dropWhile_le)
  moreover have "length (c # cs) \<le> length s"
    using length_dropWhile_le [of is_space s] a by simp
  ultimately show "(dropWhile (\<lambda>x. \<not> is_space x) cs, s) \<in> measure length"
    by simp
qed

declare split_ws.simps [simp del]

definition digits_ok :: "string \<Rightarrow> bool" where
  \<comment> \<open>digit groups, single underscores allowed between two digits only\<close>
  "digits_ok s = list_all (\<lambda>p. p \<noteq> [] \<and> list_all is_digit p) (split_on (CHR ''_'') s)"

definition digits_val :: "string \<Rightarrow> nat" where
  "digits_val s = foldl (\<lambda>acc c. 10 * acc + ((of_char c :: nat) - 48)) 0 (filter is_digit s)"

definition py_int :: "string \<Rightarrow> int option" where
  \<comment> \<open>\<open>int(s)\<close> on ASCII text; \<open>None\<close> is ValueError\<close>
  "py_int s =
     (case py_strip s of
        [] \<Rightarrow> None
      | c # cs \<Rightarrow>
          if c = CHR ''-'' then (if digits_ok cs then Some (- int (digits_val cs)) else None)
          else if c = CHR ''+'' then (if digits_ok cs then Some (int (digits_val cs)) else None)
          else if digits_ok (c # cs) then Some (int (digits_val (c # cs))) else None)"

definition py_range :: "int \<Rightarrow> int \<Rightarrow> int list" where
  \<comment> \<open>\<open>list(range(a, b))\<close>\<close>
  "py_range a b = [a..b - 1]"

subsection \<open>parse\_years and parse\_numbers\<close>

datatype error = ValueError | SystemExit

fun int_all :: "string list \<Rightarrow> error + int list" where
  \<comment> \<open>\<open>[int(n.strip()) for n in tokens]\<close>, raising at the first bad token\<close>
  "int_all [] = Inr []"
| "int_all (t # ts) =
     (case py_int (py_strip t) of
        None \<Rightarrow> Inl ValueError
      | Some v \<Rightarrow> (case int_all ts of Inl e \<Rightarrow> Inl e | Inr vs \<Rightarrow> Inr (v # vs)))"

definition parse_range :: "string \<Rightarrow> error + int list" where
  \<comment> \<open>\<open>start, end = s.split('-')\<close> raises ValueError unless there are exactly two pieces\<close>
  "parse_range s =
     (case split_on (CHR ''-'') s of
        [start, end] \<Rightarrow>
          (case py_int start of
             None \<Rightarrow> Inl ValueError
           | Some a \<Rightarrow> (case py_int end of
                          None \<Rightarrow> Inl ValueError
                        | Some b \<Rightarrow> Inr (py_range a (b + 1))))
      | _ \<Rightarrow> Inl ValueError)"

definition parse_years :: "string \<Rightarrow> error + int list" where
  "parse_years year_string =
     (if year_string = [] then Inr []
      else if CHR ''-'' \<in> set year_string then parse_range year_string
      else if CHR '','' \<in> set year_string then int_all (split_on (CHR '','') year_string)
      else (case py_int year_string of None \<Rightarrow> Inl ValueError | Some v \<Rightarrow> Inr [v]))"

definition parse_numbers :: "string \<Rightarrow> error + int list" where
  "parse_numbers num_string =
     (if num_string = [] then Inr []
      else if CHR ''-'' \<in> set num_string then parse_range num_string
      else if CHR '','' \<in> set num_string then int_all (split_on (CHR '','') num_string)
      else (case py_int num_string of None \<Rightarrow> Inl ValueError | Some v \<Rightarrow> Inr [v]))"

subsection \<open>clean\<close>

text \<open>
  On ASCII text \<open>unicodedata.normalize('NFKD', s)\<close> is the identity and no character is
  combining, so these two steps of \<open>clean\<close> leave the string as it is; the model of
  \<open>clean\<close> reads its argument as ASCII text.
\<close>

definition keep_char :: "char \<Rightarrow> bool" where
  \<comment> \<open>the complement of the regex class \<open>[^a-z0-9\s'-]\<close>\<close>
  "keep_char c = (is_lower c \<or> is_digit c \<or> is_space c \<or> c = CHR 0x27 \<or> c = CHR ''-'')"

function collapse_ws :: "string \<Rightarrow> string" where
  \<comment> \<open>\<open>re.sub(r"\s+", ' ', s)\<close>\<close>
  "collapse_ws [] = []"
| "collapse_ws (c # cs) =
     (if is_space c then CHR '' '' # collapse_ws (dropWhile is_space cs)
      else c # collapse_ws cs)"
  by pat_completeness auto
termination
  by (relation "measure length") (auto simp: length_dropWhile_le less_Suc_eq_le)

definition clean :: "string \<Rightarrow> string" where
  "clean s = collapse_ws (filter keep_char (lower (py_strip s)))"

subsection \<open>process\_name\<close>

record args =
  arg_names :: "string list option"
  arg_input :: "string option"
  arg_format :: "fmt list"
  arg_numbers :: "string option"
  arg_years :: "string option"
  arg_words :: "string option"
  arg_leet :: bool
  arg_caps :: caps_type
  arg_sort :: bool

definition truthy :: "'a list option \<Rightarrow> bool" where
  \<comment> \<open>truth value of an optional string or list: \<open>None\<close> and the empty one are false\<close>
  "truthy x = (case x of None \<Rightarrow> False | Some v \<Rightarrow> v \<noteq> [])"

definition name_parts :: "string list \<Rightarrow> string \<times> string \<times> string" where
  \<comment> \<open>(first, middle, last) of a non-empty token list\<close>
  "name_parts parts =
     (if length parts = 1 then (parts ! 0, [], [])
      else if length parts = 2 then (parts ! 0, [], parts ! 1)
      else (parts ! 0, (if length parts > 2 then parts ! 1 else []), last parts))"

definition parse_opt :: "(string \<Rightarrow> error + int list) \<Rightarrow> string option \<Rightarrow> error + int list option" where
  \<comment> \<open>\<open>parse(x) if x else None\<close>\<close>
  "parse_opt parse x =
     (if truthy x
      then (case parse (the x) of Inl e \<Rightarrow> Inl e | Inr vs \<Rightarrow> Inr (Some vs))
      else Inr None)"

definition suffix_step :: "args \<Rightarrow> string set \<Rightarrow> error + string set" where
  \<comment> \<open>lines 240-245: numbers are parsed first, then years, then the words are split\<close>
  "suffix_step a usernames =
     (if truthy (arg_numbers a) \<or> truthy (arg_years a) \<or> truthy (arg_words a)
      then (case parse_opt parse_numbers (arg_numbers a) of
              Inl e \<Rightarrow> Inl e
            | Inr numbers \<Rightarrow>
                (case parse_opt parse_years (arg_years a) of
                   Inl e \<Rightarrow> Inl e
                 | Inr years \<Rightarrow>
                     let words = (if truthy (arg_words a)
                                  then Some (split_on (CHR '','') (the (arg_words a)))
                                  else None)
                     in Inr (add_suffixes usernames numbers years words)))
      else Inr usernames)"

definition leet_step :: "bool \<Rightarrow> string set \<Rightarrow> string set" where
  \<comment> \<open>lines 248-249: \<open>usernames.update(add_l33t_speak(usernames))\<close>\<close>
  "leet_step leet usernames =
     (if leet then usernames \<union> add_l33t_speak usernames else usernames)"

definition caps_step :: "caps_type \<Rightarrow> string set \<Rightarrow> string set" where
  \<comment> \<open>lines 252-253: \<open>usernames.update(add_caps_variations(usernames, args.caps))\<close>\<close>
  "caps_step ct usernames =
     (if ct \<noteq> CapsNone then usernames \<union> add_caps_variations usernames ct else usernames)"

definition process_name :: "string \<Rightarrow> args \<Rightarrow> error + string set" where
  "process_name name a =
     (let parts = split_ws (clean name) in
      if length parts = 0 then Inr {}
      else
        (case name_parts parts of (first, middle, last_name) \<Rightarrow>
           (let usernames = generate_variants first last_name middle (Some (arg_format a)) in
              (case suffix_step a usernames of
                 Inl e \<Rightarrow> Inl e
               | Inr usernames1 \<Rightarrow>
                   Inr (caps_step (arg_caps a) (leet_step (arg_leet a) usernames1))))))"

subsection \<open>main\<close>





fun update_all :: "string set \<Rightarrow> string set list \<Rightarrow> string set" where
  \<comment> \<open>\<open>all_usernames.update(usernames)\<close> for each per-name set in turn\<close>
  "update_all all_usernames [] = all_usernames"
| "update_all all_usernames (usernames # rest) = update_all (all_usernames \<union> usernames) rest"

definition sorted_py :: "string set \<Rightarrow> string list" where
  \<comment> \<open>\<open>sorted(s)\<close> on a set of strings: ascending in the lexicographic order of the codes\<close>
  "sorted_py s = sorted_list_of_set s"

definition aggregate :: "bool \<Rightarrow> string set list \<Rightarrow> string list" where
  \<comment> \<open>lines 347-356, given the per-name sets\<close>
  "aggregate sort_flag per_name =
     (let all_usernames = update_all {} per_name in
      if sort_flag then sorted_py all_usernames else sorted_py all_usernames)"


subsection \<open>Predicates and sample inputs of the statements\<close>

definition username_char :: "char \<Rightarrow> bool" where
  \<comment> \<open>a lowercase ASCII letter, a digit, or one of the separators \<open>.\<close> \<open>_\<close> \<open>-\<close>\<close>
  "username_char c =
     (is_lower c \<or> is_digit c \<or> c = CHR ''.'' \<or> c = CHR ''_'' \<or> c = CHR ''-'')"

definition username_str :: "string \<Rightarrow> bool" where
  \<comment> \<open>every character of the string is a username character\<close>
  "username_str s = (\<forall>c \<in> set s. username_char c)"

definition enabled :: "fmt \<Rightarrow> fmt list option \<Rightarrow> bool" where
  \<comment> \<open>the category is among those the generator goes through\<close>
  "enabled c formats = (c \<in> set (resolve_formats formats))"

definition count_char :: "char \<Rightarrow> string \<Rightarrow> nat" where
  \<comment> \<open>how often the character occurs in the string\<close>
  "count_char c s = length (filter (\<lambda>x. x = c) s)"

definition plain :: "string \<Rightarrow> bool" where
  \<comment> \<open>no separator occurs in the string\<close>
  "plain s = (count_char (CHR ''.'') s = 0 \<and> count_char (CHR ''_'') s = 0 \<and> count_char (CHR ''-'') s = 0)"

definition last2 :: "string \<Rightarrow> string" where
  \<comment> \<open>the last two characters of a string, \<open>s[-2:]\<close>\<close>
  "last2 s = drop (length s - 2) s"





definition numeric_suffix :: "string \<Rightarrow> bool" where
  \<comment> \<open>only digits and the separators occur in the string\<close>
  "numeric_suffix t =
     (\<forall>c \<in> set t. is_digit c \<or> c = CHR ''.'' \<or> c = CHR ''_'' \<or> c = CHR ''-'')"

definition append_all :: "string set \<Rightarrow> string set \<Rightarrow> string set" where
  \<comment> \<open>every string of the first set followed by every string of the second\<close>
  "append_all S T = (\<Union>u \<in> S. \<Union>t \<in> T. {u @ t})"

definition number_tails :: "int list \<Rightarrow> string set" where
  \<comment> \<open>what the number loop appends to a username\<close>
  "number_tails numbers =
     (\<Union>num \<in> set numbers. {str_int num, ''.'' @ str_int num, ''_'' @ str_int num, ''-'' @ str_int num})"

definition year_tails :: "int list \<Rightarrow> string set" where
  \<comment> \<open>what the year loop appends to a username\<close>
  "year_tails years = (\<Union>year \<in> set years. {str_int year, drop 2 (str_int year)})"

definition order_args :: args where
  \<comment> \<open>a run with one number suffix, leet and upper-case variations\<close>
  "order_args = \<lparr>arg_names = Some [''Al''], arg_input = None, arg_format = [Standard],
     arg_numbers = Some ''7'', arg_years = None, arg_words = None,
     arg_leet = True, arg_caps = CapsUpper, arg_sort = False\<rparr>"

section \<open>Properties\<close>

subsection \<open>Characters of the generated variants\<close>

lemma strip_non_alnum_chars: "c \<in> set (strip_non_alnum s) \<Longrightarrow> username_char c"
  by (auto simp: strip_non_alnum_def username_char_def is_alnum_def)

lemma username_char_seps [simp]:
  "username_char (CHR ''.'')" "username_char (CHR ''_'')" "username_char (CHR ''-'')"
  by (simp_all add: username_char_def)

lemma username_str_simps [simp]:
  "username_str []"
  "username_str (c # s) = (username_char c \<and> username_str s)"
  "username_str (s @ t) = (username_str s \<and> username_str t)"
  by (auto simp: username_str_def)

lemma username_str_hd: "username_str s \<Longrightarrow> s \<noteq> [] \<Longrightarrow> username_char (hd s)"
  by (cases s) simp_all

lemma strip_username_str: "username_str (strip_non_alnum s)"
  by (simp add: username_str_def strip_non_alnum_chars)

lemma standard_ok:
  "v \<in> standard_variants f l m \<Longrightarrow> f \<noteq> [] \<Longrightarrow> username_str f \<Longrightarrow> username_str l
   \<Longrightarrow> username_str m \<Longrightarrow> v \<noteq> [] \<and> username_str v"
  by (auto simp: standard_variants_def split: if_splits)

lemma dotted_ok:
  "v \<in> dotted_variants f l m \<Longrightarrow> f \<noteq> [] \<Longrightarrow> l \<noteq> [] \<Longrightarrow> username_str f \<Longrightarrow> username_str l
   \<Longrightarrow> username_str m \<Longrightarrow> v \<noteq> [] \<and> username_str v"
  by (auto simp: dotted_variants_def username_str_hd split: if_splits)

lemma underscored_ok:
  "v \<in> underscored_variants f l m \<Longrightarrow> f \<noteq> [] \<Longrightarrow> l \<noteq> [] \<Longrightarrow> username_str f
   \<Longrightarrow> username_str l \<Longrightarrow> username_str m \<Longrightarrow> v \<noteq> [] \<and> username_str v"
  by (auto simp: underscored_variants_def username_str_hd split: if_splits)

lemma dashed_ok:
  "v \<in> dashed_variants f l \<Longrightarrow> f \<noteq> [] \<Longrightarrow> l \<noteq> [] \<Longrightarrow> username_str f \<Longrightarrow> username_str l
   \<Longrightarrow> v \<noteq> [] \<and> username_str v"
  by (auto simp: dashed_variants_def username_str_hd split: if_splits)

lemma initial_ok:
  "v \<in> initial_variants f l m \<Longrightarrow> f \<noteq> [] \<Longrightarrow> l \<noteq> [] \<Longrightarrow> username_str f \<Longrightarrow> username_str l
   \<Longrightarrow> username_str m \<Longrightarrow> v \<noteq> [] \<and> username_str v"
  by (auto simp: initial_variants_def username_str_hd split: if_splits)

lemma reversed_ok:
  "v \<in> reversed_variants f l \<Longrightarrow> f \<noteq> [] \<Longrightarrow> l \<noteq> [] \<Longrightarrow> username_str f \<Longrightarrow> username_str l
   \<Longrightarrow> v \<noteq> [] \<and> username_str v"
  by (auto simp: reversed_variants_def split: if_splits)

lemma generate_variants_cases:
  assumes "v \<in> generate_variants first last_name middle formats"
    and "f = strip_non_alnum first" and "l = strip_non_alnum last_name"
    and "m = (if middle \<noteq> [] then strip_non_alnum middle else [])"
    and "fs = resolve_formats formats"
  shows "f \<noteq> [] \<and>
     ((Standard \<in> set fs \<and> v \<in> standard_variants f l m)
      \<or> (Dotted \<in> set fs \<and> l \<noteq> [] \<and> v \<in> dotted_variants f l m)
      \<or> (Underscored \<in> set fs \<and> l \<noteq> [] \<and> v \<in> underscored_variants f l m)
      \<or> (Dashed \<in> set fs \<and> l \<noteq> [] \<and> v \<in> dashed_variants f l)
      \<or> (Initial \<in> set fs \<and> l \<noteq> [] \<and> v \<in> initial_variants f l m)
      \<or> (Reversed \<in> set fs \<and> l \<noteq> [] \<and> v \<in> reversed_variants f l))"
  using assms(1)
  unfolding generate_variants_def Let_def assms(2-5) [symmetric]
  by (auto split: if_splits)

text \<open>
  C10. Every string returned by \<open>generate_variants\<close>, for any first, last and middle
  name and any format selection, is non-empty and consists only of lowercase ASCII
  letters, digits and the separators \<open>.\<close>, \<open>_\<close> and \<open>-\<close>.
\<close>

theorem generate_variants_charset:
  assumes "v \<in> generate_variants first last_name middle formats"
  shows "v \<noteq> [] \<and> (\<forall>c \<in> set v. username_char c)"
proof -
  define f l m where "f = strip_non_alnum first" and "l = strip_non_alnum last_name"
    and "m = (if middle \<noteq> [] then strip_non_alnum middle else [])"
  have ok: "username_str f" "username_str l" "username_str m"
    by (simp_all add: f_def l_def m_def strip_username_str)
  from generate_variants_cases [OF assms f_def l_def m_def refl]
  have fne: "f \<noteq> []"
    and "v \<in> standard_variants f l m
      \<or> (l \<noteq> [] \<and> v \<in> dotted_variants f l m)
      \<or> (l \<noteq> [] \<and> v \<in> underscored_variants f l m)
      \<or> (l \<noteq> [] \<and> v \<in> dashed_variants f l)
      \<or> (l \<noteq> [] \<and> v \<in> initial_variants f l m)
      \<or> (l \<noteq> [] \<and> v \<in> reversed_variants f l)"
    by blast+
  then have "v \<noteq> [] \<and> username_str v"
  proof (elim disjE conjE)
    assume "v \<in> standard_variants f l m"
    then show ?thesis using fne ok by (rule standard_ok)
  next
    assume "l \<noteq> []" "v \<in> dotted_variants f l m"
    then show ?thesis using fne ok by (intro dotted_ok)
  next
    assume "l \<noteq> []" "v \<in> underscored_variants f l m"
    then show ?thesis using fne ok by (intro underscored_ok)
  next
    assume "l \<noteq> []" "v \<in> dashed_variants f l"
    then show ?thesis using fne ok by (intro dashed_ok)
  next
    assume "l \<noteq> []" "v \<in> initial_variants f l m"
    then show ?thesis using fne ok by (intro initial_ok)
  next
    assume "l \<noteq> []" "v \<in> reversed_variants f l"
    then show ?thesis using fne ok by (intro reversed_ok)
  qed
  then show ?thesis by (simp add: username_str_def)
qed

theorem generate_variants_charset_witness:
  "''j.doe'' \<in> generate_variants ''john'' ''doe!'' ''Q'' (Some [Dotted])
   \<and> ''j.doe'' \<noteq> [] \<and> username_str ''j.doe''"
proof -
  have h: "''j.doe'' \<in> generate_variants ''john'' ''doe!'' ''Q'' (Some [Dotted])"
    by code_simp
  show ?thesis using h generate_variants_charset [OF h] by (simp add: username_str_def)
qed

subsection \<open>Which variants a category contributes\<close>

text \<open>
  C2, as the code has it. Whenever the cleaned first name is non-empty and the
  \<open>standard\<close> category is enabled, the result contains the bare first name (and so is
  non-empty). The result is empty exactly when the cleaned first name is empty, or
  \<open>standard\<close> is not enabled and either the cleaned last name is empty or none of the
  five other categories is enabled.
\<close>

theorem generate_variants_bare_first:
  "(strip_non_alnum first \<noteq> [] \<and> enabled Standard formats
      \<longrightarrow> strip_non_alnum first \<in> generate_variants first last_name middle formats)
   \<and> (generate_variants first last_name middle formats = {}
      \<longleftrightarrow> strip_non_alnum first = []
          \<or> (\<not> enabled Standard formats
              \<and> (strip_non_alnum last_name = []
                  \<or> (\<forall>c \<in> {Dotted, Underscored, Dashed, Initial, Reversed}. \<not> enabled c formats))))"
  unfolding generate_variants_def Let_def enabled_def
  by (auto simp: standard_variants_def dotted_variants_def underscored_variants_def
        dashed_variants_def initial_variants_def reversed_variants_def)

theorem generate_variants_bare_first_witness:
  "strip_non_alnum ''John'' \<noteq> [] \<and> enabled Standard None
   \<and> strip_non_alnum ''John'' \<in> generate_variants ''John'' ''Doe'' '''' None
   \<and> generate_variants ''John'' ''Doe'' '''' None \<noteq> {}"
  using generate_variants_bare_first [of "''John''" None "''Doe''" "''''"]
  by (simp add: enabled_def resolve_formats_def strip_non_alnum_def is_alnum_def is_lower_def is_digit_def)

theorem generate_variants_empty_counterexample:
  "strip_non_alnum ''john'' \<noteq> []
   \<and> generate_variants ''john'' '''' '''' (Some [Dotted]) = {}
   \<and> ''john'' \<notin> generate_variants ''john'' ''doe'' '''' (Some [Dotted])"
  by code_simp

lemma count_char_simps [simp]:
  "count_char c [] = 0"
  "count_char c (x # s) = (if x = c then 1 else 0) + count_char c s"
  "count_char c (s @ t) = count_char c s + count_char c t"
  by (simp_all add: count_char_def)

lemma alnum_not_sep:
  "is_alnum c \<Longrightarrow> c \<noteq> CHR ''.'' \<and> c \<noteq> CHR ''_'' \<and> c \<noteq> CHR ''-''"
  by (auto simp: is_alnum_def is_lower_def is_digit_def)

lemma count_sep_strip:
  "sep = CHR ''.'' \<or> sep = CHR ''_'' \<or> sep = CHR ''-'' \<Longrightarrow> count_char sep (strip_non_alnum s) = 0"
  using alnum_not_sep by (auto simp: count_char_def strip_non_alnum_def filter_empty_conv)

lemma plain_strip: "plain (strip_non_alnum s)"
  by (simp add: plain_def count_sep_strip)

lemma plain_nil: "plain []"
  by (simp add: plain_def)

lemma plain_hd: "plain s \<Longrightarrow> s \<noteq> [] \<Longrightarrow> hd s \<noteq> CHR ''.'' \<and> hd s \<noteq> CHR ''_'' \<and> hd s \<noteq> CHR ''-''"
  by (cases s) (auto simp: plain_def split: if_splits)

lemma variants_sep_count:
  assumes "v \<in> generate_variants first last_name middle formats"
    and f: "f = strip_non_alnum first" and l: "l = strip_non_alnum last_name"
    and m: "m = (if middle \<noteq> [] then strip_non_alnum middle else [])"
  shows "count_char (CHR ''-'') v \<le> 1"
    and "count_char (CHR ''_'') v \<le> 1 \<or> (enabled Underscored formats \<and> v = f @ ''_'' @ m @ ''_'' @ l)"
proof -
  have p: "plain f" "plain l" "plain m"
    by (simp_all add: f l m plain_strip plain_nil)
  note c = generate_variants_cases [OF assms(1) f l m refl]
  then have fne: "f \<noteq> []" by simp
  have hf: "hd f \<noteq> CHR ''.'' \<and> hd f \<noteq> CHR ''_'' \<and> hd f \<noteq> CHR ''-''"
    using plain_hd [OF p(1) fne] .
  have hl: "l \<noteq> [] \<Longrightarrow> hd l \<noteq> CHR ''.'' \<and> hd l \<noteq> CHR ''_'' \<and> hd l \<noteq> CHR ''-''"
    using plain_hd [OF p(2)] .
  have hm: "m \<noteq> [] \<Longrightarrow> hd m \<noteq> CHR ''.'' \<and> hd m \<noteq> CHR ''_'' \<and> hd m \<noteq> CHR ''-''"
    using plain_hd [OF p(3)] .
  from c show "count_char (CHR ''-'') v \<le> 1"
    using p hf hl hm
    by (auto simp: plain_def standard_variants_def dotted_variants_def underscored_variants_def
        dashed_variants_def initial_variants_def reversed_variants_def split: if_splits)
  from c show "count_char (CHR ''_'') v \<le> 1 \<or> (enabled Underscored formats \<and> v = f @ ''_'' @ m @ ''_'' @ l)"
    using p hf hl hm
    by (auto simp: enabled_def plain_def standard_variants_def dotted_variants_def underscored_variants_def
        dashed_variants_def initial_variants_def reversed_variants_def split: if_splits)
qed

lemma variants_member:
  assumes "strip_non_alnum first \<noteq> []" "strip_non_alnum last_name \<noteq> []" "enabled c formats"
  shows "c = Dotted \<Longrightarrow> dotted_variants (strip_non_alnum first) (strip_non_alnum last_name)
            (if middle \<noteq> [] then strip_non_alnum middle else [])
          \<subseteq> generate_variants first last_name middle formats"
    and "c = Underscored \<Longrightarrow> underscored_variants (strip_non_alnum first) (strip_non_alnum last_name)
            (if middle \<noteq> [] then strip_non_alnum middle else [])
          \<subseteq> generate_variants first last_name middle formats"
  using assms unfolding generate_variants_def Let_def enabled_def by auto

text \<open>
  C1, as the code has it. For non-empty cleaned first, middle and last names \<open>f\<close>,
  \<open>m\<close>, \<open>l\<close>: with \<open>dotted\<close> enabled the result holds both \<open>f.m.l\<close> and
  \<open>f[0].m[0].l\<close>; with \<open>underscored\<close> enabled it holds \<open>f_m_l\<close>; it holds
  \<open>f[0]_m[0]_l\<close> exactly when \<open>underscored\<close> is enabled and \<open>f\<close> and \<open>m\<close> are
  single characters (then it is \<open>f_m_l\<close> itself); and, whatever the format selection,
  it holds neither \<open>f-m-l\<close> nor \<open>f[0]-m[0]-l\<close>.
\<close>

theorem generate_variants_middle_pairs:
  assumes f: "f = strip_non_alnum first" and l: "l = strip_non_alnum last_name"
    and m: "m = strip_non_alnum middle"
    and ne: "f \<noteq> []" "l \<noteq> []" "m \<noteq> []"
    and G: "G = generate_variants first last_name middle formats"
  shows "(enabled Dotted formats \<longrightarrow>
            f @ ''.'' @ m @ ''.'' @ l \<in> G \<and> [hd f] @ ''.'' @ [hd m] @ ''.'' @ l \<in> G)
       \<and> (enabled Underscored formats \<longrightarrow> f @ ''_'' @ m @ ''_'' @ l \<in> G)
       \<and> ([hd f] @ ''_'' @ [hd m] @ ''_'' @ l \<in> G
            \<longleftrightarrow> enabled Underscored formats \<and> length f = 1 \<and> length m = 1)
       \<and> f @ ''-'' @ m @ ''-'' @ l \<notin> G
       \<and> [hd f] @ ''-'' @ [hd m] @ ''-'' @ l \<notin> G"
proof -
  have mid: "middle \<noteq> []" using ne(3) m by (auto simp: strip_non_alnum_def)
  then have m': "m = (if middle \<noteq> [] then strip_non_alnum middle else [])"
    using m by simp
  have p: "plain f" "plain l" "plain m"
    by (simp_all add: f l m plain_strip)
  have hf: "hd f \<noteq> CHR ''_'' \<and> hd f \<noteq> CHR ''-''" using plain_hd [OF p(1) ne(1)] by simp
  have hm: "hd m \<noteq> CHR ''_'' \<and> hd m \<noteq> CHR ''-''" using plain_hd [OF p(3) ne(3)] by simp
  have dotted: "enabled Dotted formats \<longrightarrow>
            f @ ''.'' @ m @ ''.'' @ l \<in> G \<and> [hd f] @ ''.'' @ [hd m] @ ''.'' @ l \<in> G"
  proof
    assume e: "enabled Dotted formats"
    have "dotted_variants f l m \<subseteq> G"
      using variants_member(1) [OF ne(1) [unfolded f] ne(2) [unfolded l] e refl, of middle]
      unfolding G f l m' .
    then show "f @ ''.'' @ m @ ''.'' @ l \<in> G \<and> [hd f] @ ''.'' @ [hd m] @ ''.'' @ l \<in> G"
      using ne(3) by (auto simp: dotted_variants_def)
  qed
  have under: "enabled Underscored formats \<longrightarrow> f @ ''_'' @ m @ ''_'' @ l \<in> G"
  proof
    assume e: "enabled Underscored formats"
    have "underscored_variants f l m \<subseteq> G"
      using variants_member(2) [OF ne(1) [unfolded f] ne(2) [unfolded l] e refl, of middle]
      unfolding G f l m' .
    then show "f @ ''_'' @ m @ ''_'' @ l \<in> G"
      using ne(3) by (auto simp: underscored_variants_def)
  qed
  have len1: "length f = 1 \<and> length m = 1 \<longleftrightarrow> f = [hd f] \<and> m = [hd m]"
    using ne by (cases f; cases m) auto
  have initials: "[hd f] @ ''_'' @ [hd m] @ ''_'' @ l \<in> G
            \<longleftrightarrow> enabled Underscored formats \<and> length f = 1 \<and> length m = 1"
  proof
    assume a: "[hd f] @ ''_'' @ [hd m] @ ''_'' @ l \<in> G"
    have "count_char (CHR ''_'') ([hd f] @ ''_'' @ [hd m] @ ''_'' @ l) = 2"
      using p hf hm by (simp add: plain_def)
    with variants_sep_count(2) [OF a [unfolded G] f l m']
    have e: "enabled Underscored formats"
      and eq: "[hd f] @ ''_'' @ [hd m] @ ''_'' @ l = f @ ''_'' @ m @ ''_'' @ l"
      by auto
    have "length f + length m = 2"
      using arg_cong [OF eq, of length] by simp
    moreover have "length f \<ge> 1" "length m \<ge> 1" using ne by (simp_all add: Suc_le_eq)
    ultimately have "length f = 1 \<and> length m = 1" by arith
    with e show "enabled Underscored formats \<and> length f = 1 \<and> length m = 1" by simp
  next
    assume a: "enabled Underscored formats \<and> length f = 1 \<and> length m = 1"
    then have "f = [hd f]" "m = [hd m]" using len1 by simp_all
    then have eq: "[hd f] @ ''_'' @ [hd m] @ ''_'' @ l = f @ ''_'' @ m @ ''_'' @ l" by simp
    have "f @ ''_'' @ m @ ''_'' @ l \<in> G" using under a by blast
    then show "[hd f] @ ''_'' @ [hd m] @ ''_'' @ l \<in> G" unfolding eq .
  qed
  have dash1: "f @ ''-'' @ m @ ''-'' @ l \<notin> G"
  proof
    assume a: "f @ ''-'' @ m @ ''-'' @ l \<in> G"
    have "count_char (CHR ''-'') (f @ ''-'' @ m @ ''-'' @ l) = 2"
      using p by (simp add: plain_def)
    with variants_sep_count(1) [OF a [unfolded G] f l m'] show False by simp
  qed
  have dash2: "[hd f] @ ''-'' @ [hd m] @ ''-'' @ l \<notin> G"
  proof
    assume a: "[hd f] @ ''-'' @ [hd m] @ ''-'' @ l \<in> G"
    have "count_char (CHR ''-'') ([hd f] @ ''-'' @ [hd m] @ ''-'' @ l) = 2"
      using p hf hm by (simp add: plain_def)
    with variants_sep_count(1) [OF a [unfolded G] f l m'] show False by simp
  qed
  from dotted under initials dash1 dash2 show ?thesis by blast
qed

theorem generate_variants_middle_pairs_witness:
  "''john'' = strip_non_alnum ''john'' \<and> ''doe'' = strip_non_alnum ''doe''
   \<and> ''q'' = strip_non_alnum ''q''
   \<and> enabled Dotted None \<and> enabled Underscored None
   \<and> ''john.q.doe'' \<in> generate_variants ''john'' ''doe'' ''q'' None
   \<and> ''j.q.doe'' \<in> generate_variants ''john'' ''doe'' ''q'' None
   \<and> ''john_q_doe'' \<in> generate_variants ''john'' ''doe'' ''q'' None
   \<and> ''j_q_doe'' \<notin> generate_variants ''john'' ''doe'' ''q'' None
   \<and> ''john-q-doe'' \<notin> generate_variants ''john'' ''doe'' ''q'' None
   \<and> ''j-q-doe'' \<notin> generate_variants ''john'' ''doe'' ''q'' None"
proof -
  have s: "''john'' = strip_non_alnum ''john''" "''doe'' = strip_non_alnum ''doe''"
    "''q'' = strip_non_alnum ''q''"
    by code_simp+
  have e: "enabled Dotted None" "enabled Underscored None"
    by (simp_all add: enabled_def resolve_formats_def)
  show ?thesis
    using generate_variants_middle_pairs [OF s, of _ None] s e by simp
qed

theorem underscored_initials_counterexample:
  "strip_non_alnum ''john'' = ''john'' \<and> strip_non_alnum ''doe'' = ''doe''
   \<and> strip_non_alnum ''mike'' = ''mike''
   \<and> enabled Underscored (Some [Underscored])
   \<and> [hd ''john''] @ ''_'' @ [hd ''mike''] @ ''_'' @ ''doe''
       \<notin> generate_variants ''john'' ''doe'' ''mike'' (Some [Underscored])"
  by code_simp

subsection \<open>The leet pass\<close>

lemma replace_first_index:
  "c \<in> set u \<Longrightarrow>
   \<exists>i < length u. u ! i = c \<and> (\<forall>j < i. u ! j \<noteq> c) \<and> replace_first c r u = u[i := r]"
proof (induction u)
  case Nil
  then show ?case by simp
next
  case (Cons x xs)
  show ?case
  proof (cases "x = c")
    case True
    then have "0 < length (x # xs) \<and> (x # xs) ! 0 = c \<and> (\<forall>j < 0. (x # xs) ! j \<noteq> c)
        \<and> replace_first c r (x # xs) = (x # xs)[0 := r]"
      by simp
    then show ?thesis by blast
  next
    case False
    with Cons.prems have "c \<in> set xs" by simp
    from Cons.IH [OF this] obtain i where i: "i < length xs" "xs ! i = c"
      "\<forall>j < i. xs ! j \<noteq> c" "replace_first c r xs = xs[i := r]"
      by blast
    have "\<forall>j < Suc i. (x # xs) ! j \<noteq> c"
    proof (intro allI impI)
      fix j assume "j < Suc i"
      then show "(x # xs) ! j \<noteq> c"
        using False i(3) by (cases j) simp_all
    qed
    with i False have "Suc i < length (x # xs) \<and> (x # xs) ! Suc i = c
        \<and> (\<forall>j < Suc i. (x # xs) ! j \<noteq> c)
        \<and> replace_first c r (x # xs) = (x # xs)[Suc i := r]"
      by simp
    then show ?thesis by blast
  qed
qed

lemma l33t_map_distinct: "(c, rs) \<in> set l33t_map \<Longrightarrow> r \<in> set rs \<Longrightarrow> r \<noteq> c"
  by (auto simp: l33t_map_def)

text \<open>
  C8. Every string produced by \<open>add_l33t_speak\<close> comes from a username \<open>u\<close> of the
  base set and one entry \<open>c \<mapsto> r\<close> of the substitution table: it has the length of
  \<open>u\<close> and is \<open>u\<close> with \<open>r\<close> written at the first position that holds \<open>c\<close>, every
  other position unchanged; \<open>r\<close> differs from \<open>c\<close>.
\<close>

theorem add_l33t_speak_single_substitution:
  assumes "v \<in> add_l33t_speak usernames"
  shows "\<exists>u \<in> usernames. \<exists>c rs r i.
           (c, rs) \<in> set l33t_map \<and> r \<in> set rs \<and> r \<noteq> c
           \<and> i < length u \<and> u ! i = c \<and> (\<forall>j < i. u ! j \<noteq> c)
           \<and> v = u[i := r] \<and> length v = length u"
proof -
  from assms obtain u c rs r where u: "u \<in> usernames" and m: "(c, rs) \<in> set l33t_map"
    and c: "c \<in> set u" and r: "r \<in> set rs" and v: "v = replace_first c r u"
    by (auto simp: add_l33t_speak_def split: if_splits)
  from replace_first_index [OF c, of r] obtain i where i: "i < length u" "u ! i = c"
    "\<forall>j < i. u ! j \<noteq> c" "replace_first c r u = u[i := r]"
    by blast
  have "r \<noteq> c" using l33t_map_distinct [OF m r] .
  with u m r i v show ?thesis by (intro bexI [of _ u] exI [of _ c] exI [of _ rs] exI [of _ r] exI [of _ i]) simp_all
qed

theorem add_l33t_speak_single_substitution_witness:
  "''st4tes'' \<in> add_l33t_speak {''states''}
   \<and> (\<exists>u \<in> {''states''}. \<exists>c rs r i.
           (c, rs) \<in> set l33t_map \<and> r \<in> set rs \<and> r \<noteq> c
           \<and> i < length u \<and> u ! i = c \<and> (\<forall>j < i. u ! j \<noteq> c)
           \<and> ''st4tes'' = u[i := r] \<and> length ''st4tes'' = length u)"
proof -
  have h: "''st4tes'' \<in> add_l33t_speak {''states''}" by code_simp
  from h add_l33t_speak_single_substitution [OF h] show ?thesis by (rule conjI)
qed

subsection \<open>The year suffixes\<close>

text \<open>
  C3 fails on the code for a year whose decimal representation does not have four
  characters: the slice \<open>str(year)[2:]\<close> drops the first two characters instead of
  keeping the last two. For the year 123 the pass adds \<open>john3\<close>, not \<open>john23\<close>.
\<close>

theorem year_suffix_short_year:
  "add_suffixes {''john''} None (Some [123]) None = {''john'', ''john123'', ''john3''}
   \<and> str_int 123 = ''123'' \<and> last2 (str_int 123) = ''23''
   \<and> ''john'' @ last2 (str_int 123) \<notin> add_suffixes {''john''} None (Some [123]) None"
  by code_simp

subsection \<open>Descending ranges\<close>






subsection \<open>The aggregator\<close>

lemma update_all_union: "update_all acc per_name = acc \<union> \<Union> (set per_name)"
  by (induction per_name arbitrary: acc) auto

text \<open>
  C7. For every sequence of finite per-name sets, and whatever the sort flag, the
  output of the aggregator is ascending in the lexicographic order of the character
  codes, holds no string twice, and holds exactly the strings of the union of the sets;
  the flag does not change the output.
\<close>

theorem aggregate_sorted_union:
  assumes "\<forall>s \<in> set per_name. finite s"
  shows "sorted (aggregate sort_flag per_name)
       \<and> distinct (aggregate sort_flag per_name)
       \<and> set (aggregate sort_flag per_name) = \<Union> (set per_name)
       \<and> aggregate sort_flag per_name = aggregate (\<not> sort_flag) per_name"
proof -
  have fin: "finite (\<Union> (set per_name))" using assms by simp
  have eq: "aggregate b per_name = sorted_list_of_set (\<Union> (set per_name))" for b
    by (simp add: aggregate_def sorted_py_def update_all_union)
  show ?thesis unfolding eq using fin by simp
qed

theorem aggregate_sorted_union_witness:
  "finite {''john'', ''jdoe''} \<and> finite {''jon'', ''jdoe''}
   \<and> aggregate False [{''john'', ''jdoe''}, {''jon'', ''jdoe''}] = [''jdoe'', ''john'', ''jon'']
   \<and> sorted (aggregate False [{''john'', ''jdoe''}, {''jon'', ''jdoe''}])
   \<and> distinct (aggregate False [{''john'', ''jdoe''}, {''jon'', ''jdoe''}])
   \<and> set (aggregate False [{''john'', ''jdoe''}, {''jon'', ''jdoe''}])
       = \<Union> (set [{''john'', ''jdoe''}, {''jon'', ''jdoe''}])
   \<and> aggregate False [{''john'', ''jdoe''}, {''jon'', ''jdoe''}]
       = aggregate (\<not> False) [{''john'', ''jdoe''}, {''jon'', ''jdoe''}]"
proof -
  have h: "\<forall>s \<in> set [{''john'', ''jdoe''}, {''jon'', ''jdoe''}]. finite s" by simp
  have v: "aggregate False [{''john'', ''jdoe''}, {''jon'', ''jdoe''}] = [''jdoe'', ''john'', ''jon'']"
    by code_simp
  have f: "finite {''john'', ''jdoe''}" "finite {''jon'', ''jdoe''}" by simp_all
  note t = aggregate_sorted_union [OF h, of False]
  from f v t show ?thesis by (intro conjI) (elim conjE, assumption)+
qed

subsection \<open>Names without usable tokens\<close>











subsection \<open>Malformed number and year specifications\<close>













subsection \<open>Order of the expander passes\<close>

lemma digit_char_is_digit: "d < 10 \<Longrightarrow> is_digit (digit_char d)"
  by (simp add: is_digit_def digit_char_def)

lemma str_nat_digits: "c \<in> set (str_nat n) \<Longrightarrow> is_digit c"
proof (induction n arbitrary: c rule: str_nat.induct)
  case (1 n)
  show ?case
  proof (cases "n < 10")
    case True
    with "1.prems" show ?thesis
      by (subst (asm) str_nat.simps) (simp add: digit_char_is_digit)
  next
    case False
    with "1.prems" have "c \<in> set (str_nat (n div 10)) \<or> c = digit_char (n mod 10)"
      by (subst (asm) str_nat.simps) auto
    then show ?thesis
      using "1.IH" [OF False] digit_char_is_digit [of "n mod 10"] by auto
  qed
qed

lemma str_int_numeric: "numeric_suffix (str_int i)"
  by (auto simp: numeric_suffix_def str_int_def dest: str_nat_digits)

lemma numeric_suffix_simps [simp]:
  "numeric_suffix []"
  "numeric_suffix (c # t) = ((is_digit c \<or> c = CHR ''.'' \<or> c = CHR ''_'' \<or> c = CHR ''-'') \<and> numeric_suffix t)"
  by (auto simp: numeric_suffix_def)

lemma numeric_suffix_drop: "numeric_suffix t \<Longrightarrow> numeric_suffix (drop k t)"
  by (auto simp: numeric_suffix_def dest: in_set_dropD)

lemma number_tails_numeric: "t \<in> number_tails numbers \<Longrightarrow> numeric_suffix t"
  by (auto simp: number_tails_def str_int_numeric)

lemma year_tails_numeric: "t \<in> year_tails years \<Longrightarrow> numeric_suffix t"
  by (auto simp: year_tails_def str_int_numeric numeric_suffix_drop)

lemma number_suffixes_append_all:
  "number_suffixes S numbers = append_all S (number_tails numbers)"
  by (auto simp: number_suffixes_def append_all_def number_tails_def)

lemma year_suffixes_append_all:
  "year_suffixes S years = append_all S (year_tails years)"
  by (auto simp: year_suffixes_def append_all_def year_tails_def)

lemma append_all_Un: "append_all (A \<union> B) T = append_all A T \<union> append_all B T"
  "append_all S (T \<union> U) = append_all S T \<union> append_all S U"
  by (auto simp: append_all_def)

lemma add_suffixes_numeric:
  "add_suffixes S numbers years None
     = S \<union> append_all S (number_tails (truthy_list numbers) \<union> year_tails (truthy_list years))"
  by (simp add: add_suffixes_def number_suffixes_append_all year_suffixes_append_all
      word_suffixes_def truthy_list_def append_all_Un Un_assoc)

lemma l33t_key_not_numeric:
  "(c, rs) \<in> set l33t_map \<Longrightarrow> numeric_suffix t \<Longrightarrow> c \<notin> set t"
  by (auto simp: l33t_map_def numeric_suffix_def is_digit_def)

lemma replace_first_append:
  "c \<in> set u \<Longrightarrow> replace_first c r (u @ t) = replace_first c r u @ t"
  by (induction u) auto

lemma add_l33t_speak_Un: "add_l33t_speak (A \<union> B) = add_l33t_speak A \<union> add_l33t_speak B"
  by (simp add: add_l33t_speak_def)

lemma add_l33t_speakI:
  "u \<in> S \<Longrightarrow> (c, rs) \<in> set l33t_map \<Longrightarrow> c \<in> set u \<Longrightarrow> r \<in> set rs
   \<Longrightarrow> replace_first c r u \<in> add_l33t_speak S"
  by (force simp: add_l33t_speak_def)

lemma append_allI: "u \<in> S \<Longrightarrow> t \<in> T \<Longrightarrow> u @ t \<in> append_all S T"
  by (auto simp: append_all_def)

lemma add_l33t_speak_append_all:
  assumes "\<forall>t \<in> T. numeric_suffix t"
  shows "add_l33t_speak (append_all S T) = append_all (add_l33t_speak S) T"
proof (intro set_eqI iffI)
  fix v assume "v \<in> add_l33t_speak (append_all S T)"
  then obtain u t c rs r where *: "u \<in> S" "t \<in> T" "(c, rs) \<in> set l33t_map"
    "c \<in> set (u @ t)" "r \<in> set rs" "v = replace_first c r (u @ t)"
    by (auto simp: add_l33t_speak_def append_all_def split: if_splits)
  from * assms have "c \<notin> set t" using l33t_key_not_numeric by blast
  with * have cu: "c \<in> set u" by simp
  then have v: "v = replace_first c r u @ t" using * by (simp add: replace_first_append)
  have "replace_first c r u \<in> add_l33t_speak S"
    using *(1,3) cu *(5) by (rule add_l33t_speakI)
  then show "v \<in> append_all (add_l33t_speak S) T"
    unfolding v using *(2) by (rule append_allI)
next
  fix v assume "v \<in> append_all (add_l33t_speak S) T"
  then obtain u t c rs r where *: "u \<in> S" "t \<in> T" "(c, rs) \<in> set l33t_map"
    "c \<in> set u" "r \<in> set rs" "v = replace_first c r u @ t"
    by (auto simp: add_l33t_speak_def append_all_def split: if_splits)
  then have v: "v = replace_first c r (u @ t)" by (simp add: replace_first_append)
  have m: "u @ t \<in> append_all S T" using *(1,2) by (rule append_allI)
  have c: "c \<in> set (u @ t)" using * by simp
  show "v \<in> add_l33t_speak (append_all S T)"
    unfolding v using m *(3) c *(5) by (rule add_l33t_speakI)
qed

lemma numeric_not_cased:
  "is_digit c \<or> c = CHR ''.'' \<or> c = CHR ''_'' \<or> c = CHR ''-'' \<Longrightarrow> \<not> is_lower c \<and> \<not> is_upper c"
  by (auto simp: is_digit_def is_lower_def is_upper_def)

lemma upper_char_uncased: "\<not> is_lower c \<Longrightarrow> upper_char c = c"
  by (simp add: upper_char_def)

lemma lower_char_uncased: "\<not> is_upper c \<Longrightarrow> lower_char c = c"
  by (simp add: lower_char_def)

lemma upper_numeric: "numeric_suffix t \<Longrightarrow> upper t = t"
proof (induction t)
  case Nil
  then show ?case by (simp add: upper_def)
next
  case (Cons c t)
  then have "\<not> is_lower c" using numeric_not_cased [of c] by simp
  with Cons show ?case by (simp add: upper_def upper_char_uncased)
qed

lemma lower_numeric: "numeric_suffix t \<Longrightarrow> lower t = t"
proof (induction t)
  case Nil
  then show ?case by (simp add: lower_def)
next
  case (Cons c t)
  then have "\<not> is_upper c" using numeric_not_cased [of c] by simp
  with Cons show ?case by (simp add: lower_def lower_char_uncased)
qed

lemma title_from_numeric: "numeric_suffix t \<Longrightarrow> title_from p t = t"
proof (induction t arbitrary: p)
  case Nil
  then show ?case by simp
next
  case (Cons c t)
  then have "\<not> is_cased c" using numeric_not_cased [of c] by (simp add: is_cased_def)
  with Cons show ?case by simp
qed

lemma upper_append_numeric: "numeric_suffix t \<Longrightarrow> upper (u @ t) = upper u @ t"
  using upper_numeric by (simp add: upper_def)

lemma capitalize_append_numeric: "numeric_suffix t \<Longrightarrow> capitalize (u @ t) = capitalize u @ t"
proof (cases u)
  case Nil
  assume n: "numeric_suffix t"
  show ?thesis
  proof (cases t)
    case Nil
    with \<open>u = []\<close> show ?thesis by (simp add: capitalize_def)
  next
    case (Cons c cs)
    with n have "upper_char c = c" "lower cs = cs"
      using lower_numeric [of cs] numeric_not_cased [of c] by (simp_all add: upper_char_uncased)
    with Cons \<open>u = []\<close> show ?thesis by (simp add: capitalize_def)
  qed
next
  case (Cons x xs)
  assume "numeric_suffix t"
  then have "lower (xs @ t) = lower xs @ t" using lower_numeric by (simp add: lower_def)
  with Cons show ?thesis by (simp add: capitalize_def)
qed

lemma title_from_append_numeric:
  "numeric_suffix t \<Longrightarrow> title_from p (u @ t) = title_from p u @ t"
  by (induction u arbitrary: p) (simp_all add: title_from_numeric)

lemma title_append_numeric: "numeric_suffix t \<Longrightarrow> title (u @ t) = title u @ t"
  by (simp add: title_def title_from_append_numeric)

lemma add_caps_variations_Un:
  "add_caps_variations (A \<union> B) ct = add_caps_variations A ct \<union> add_caps_variations B ct"
  by (simp add: add_caps_variations_def)

lemma add_caps_variations_append_all:
  assumes "\<forall>t \<in> T. numeric_suffix t"
  shows "add_caps_variations (append_all S T) ct = append_all (add_caps_variations S ct) T"
  using assms
  by (cases ct)
    (auto simp: add_caps_variations_def append_all_def upper_append_numeric
      capitalize_append_numeric title_append_numeric)

lemma append_all_Un_left: "append_all (A \<union> B) T = append_all A T \<union> append_all B T"
  by (auto simp: append_all_def)

lemma leet_step_append_all:
  assumes "\<forall>t \<in> T. numeric_suffix t"
  shows "leet_step lt (S \<union> append_all S T) = leet_step lt S \<union> append_all (leet_step lt S) T"
proof (cases lt)
  case True
  have "add_l33t_speak (S \<union> append_all S T)
      = add_l33t_speak S \<union> append_all (add_l33t_speak S) T"
    by (simp only: add_l33t_speak_Un add_l33t_speak_append_all [OF assms])
  with True show ?thesis
    by (simp only: leet_step_def if_True append_all_Un_left) blast
next
  case False
  then show ?thesis by (simp add: leet_step_def)
qed

lemma caps_step_append_all:
  assumes "\<forall>t \<in> T. numeric_suffix t"
  shows "caps_step ct (S \<union> append_all S T) = caps_step ct S \<union> append_all (caps_step ct S) T"
proof (cases "ct = CapsNone")
  case False
  have "add_caps_variations (S \<union> append_all S T) ct
      = add_caps_variations S ct \<union> append_all (add_caps_variations S ct) T"
    by (simp only: add_caps_variations_Un add_caps_variations_append_all [OF assms])
  with False show ?thesis
    by (simp only: caps_step_def if_True not_False_eq_True simp_thms append_all_Un_left) blast
next
  case True
  then show ?thesis by (simp add: caps_step_def)
qed

lemma tails_numeric:
  "\<forall>t \<in> number_tails (truthy_list numbers) \<union> year_tails (truthy_list years). numeric_suffix t"
  using number_tails_numeric year_tails_numeric by auto

lemma leet_step_numeric:
  "leet_step lt (add_suffixes S numbers years None)
     = add_suffixes (leet_step lt S) numbers years None"
  by (simp only: add_suffixes_numeric leet_step_append_all [OF tails_numeric])

lemma caps_step_numeric:
  "caps_step ct (add_suffixes S numbers years None)
     = add_suffixes (caps_step ct S) numbers years None"
  by (simp only: add_suffixes_numeric caps_step_append_all [OF tails_numeric])

lemma process_name_expansion:
  assumes "split_ws (clean name) \<noteq> []"
    and "name_parts (split_ws (clean name)) = (first, middle, last_name)"
    and "suffix_step a (generate_variants first last_name middle (Some (arg_format a))) = Inr s1"
  shows "process_name name a =
     Inr (s1 \<union> (if arg_leet a then add_l33t_speak s1 else {})
             \<union> (if arg_caps a \<noteq> CapsNone
                then add_caps_variations
                       (s1 \<union> (if arg_leet a then add_l33t_speak s1 else {})) (arg_caps a)
                else {}))"
  using assms by (simp add: process_name_def Let_def leet_step_def caps_step_def)

text \<open>
  C4, as the code has it. The suffix pass with numbers and years only commutes with the
  leet pass and with the capitalization pass; each pass keeps the strings it is given.
  The leet and capitalization passes do not commute with each other, nor does a word
  suffix with the leet pass, and \<open>process_name\<close> runs the passes in one order: suffixes,
  then leet on the set with its suffixes, then capitalization on the set with its
  suffixes and leet strings.
\<close>

theorem expander_passes_order:
  "leet_step lt (add_suffixes S numbers years None)
      = add_suffixes (leet_step lt S) numbers years None
   \<and> caps_step ct (add_suffixes S numbers years None)
      = add_suffixes (caps_step ct S) numbers years None
   \<and> S \<subseteq> add_suffixes S numbers years wds \<and> S \<subseteq> leet_step lt S \<and> S \<subseteq> caps_step ct S
   \<and> (split_ws (clean name) \<noteq> []
        \<and> name_parts (split_ws (clean name)) = (first, middle, last_name)
        \<and> suffix_step a (generate_variants first last_name middle (Some (arg_format a))) = Inr s1
      \<longrightarrow> process_name name a =
           Inr (s1 \<union> (if arg_leet a then add_l33t_speak s1 else {})
                   \<union> (if arg_caps a \<noteq> CapsNone
                      then add_caps_variations
                             (s1 \<union> (if arg_leet a then add_l33t_speak s1 else {})) (arg_caps a)
                      else {})))"
proof (intro conjI impI)
  show "leet_step lt (add_suffixes S numbers years None)
      = add_suffixes (leet_step lt S) numbers years None"
    by (rule leet_step_numeric)
  show "caps_step ct (add_suffixes S numbers years None)
      = add_suffixes (caps_step ct S) numbers years None"
    by (rule caps_step_numeric)
  show "S \<subseteq> add_suffixes S numbers years wds" by (auto simp: add_suffixes_def)
  show "S \<subseteq> leet_step lt S" by (auto simp: leet_step_def)
  show "S \<subseteq> caps_step ct S" by (auto simp: caps_step_def)
next
  assume "split_ws (clean name) \<noteq> []
        \<and> name_parts (split_ws (clean name)) = (first, middle, last_name)
        \<and> suffix_step a (generate_variants first last_name middle (Some (arg_format a))) = Inr s1"
  then show "process_name name a =
           Inr (s1 \<union> (if arg_leet a then add_l33t_speak s1 else {})
                   \<union> (if arg_caps a \<noteq> CapsNone
                      then add_caps_variations
                             (s1 \<union> (if arg_leet a then add_l33t_speak s1 else {})) (arg_caps a)
                      else {}))"
    using process_name_expansion by blast
qed

theorem expander_passes_order_witness:
  "split_ws (clean ''Al'') \<noteq> []
   \<and> name_parts (split_ws (clean ''Al'')) = (''al'', [], [])
   \<and> suffix_step order_args (generate_variants ''al'' [] [] (Some (arg_format order_args)))
       = Inr {''al'', ''al7'', ''al.7'', ''al_7'', ''al-7''}
   \<and> process_name ''Al'' order_args =
       Inr ({''al'', ''al7'', ''al.7'', ''al_7'', ''al-7''}
            \<union> (if arg_leet order_args
                then add_l33t_speak {''al'', ''al7'', ''al.7'', ''al_7'', ''al-7''} else {})
            \<union> (if arg_caps order_args \<noteq> CapsNone
                then add_caps_variations
                      ({''al'', ''al7'', ''al.7'', ''al_7'', ''al-7''}
                       \<union> (if arg_leet order_args
                           then add_l33t_speak {''al'', ''al7'', ''al.7'', ''al_7'', ''al-7''}
                           else {}))
                      (arg_caps order_args)
                else {}))
   \<and> leet_step True (add_suffixes {''al''} (Some [7]) None None)
       = add_suffixes (leet_step True {''al''}) (Some [7]) None None"
proof -
  have h: "split_ws (clean ''Al'') \<noteq> []
   \<and> name_parts (split_ws (clean ''Al'')) = (''al'', [], [])
   \<and> suffix_step order_args (generate_variants ''al'' [] [] (Some (arg_format order_args)))
       = Inr {''al'', ''al7'', ''al.7'', ''al_7'', ''al-7''}"
    by code_simp
  note t = expander_passes_order [of True "{''al''}" "Some [7]" None CapsUpper None
      "''Al''" "''al''" "[]" "[]" order_args "{''al'', ''al7'', ''al.7'', ''al_7'', ''al-7''}"]
  from t h show ?thesis by blast
qed

theorem passes_order_counterexample:
  "leet_step True (caps_step CapsUpper {''ab''}) \<noteq> caps_step CapsUpper (leet_step True {''ab''})
   \<and> leet_step True (add_suffixes {''a''} None None (Some [''e'']))
       \<noteq> add_suffixes (leet_step True {''a''}) None None (Some [''e''])"
  by code_simp

end
